theory Spec2Isabelle
  imports Main
begin

section \<open>The save handler of the display-segments dialog\<close>

text \<open>
  Embedding of \<open>handleSave\<close> in
  \<open>src/frontend/src/components/DisplaySegmentsDialog/index.js\<close> (lines 50 to 76).

  The handler walks \<open>display.segments\<close>, groups the ranges by segment name in a local
  object \<open>output\<close>, raises the local flag \<open>overlap\<close> when an earlier range of the same
  name ends at or after the start of the current one, and then dispatches one of two
  actions.
\<close>

subsection \<open>Data\<close>

text \<open>
  A segment is the array \<open>[name, start, end, someBool]\<close>. The handler only ever compares
  \<open>start\<close> and \<open>end\<close> with \<open>>=\<close>, so the type of the two bounds is left open: any type
  \<open>'n\<close> with an order relation, about which nothing is assumed.
\<close>

type_synonym 'n segment = "string \<times> 'n \<times> 'n \<times> bool"

text \<open>The \<open>display\<close> prop: \<open>display.id\<close>, \<open>display.config.name\<close>, \<open>display.segments\<close>.\<close>

record 'n display =
  display_id :: string
  config_name :: string
  segments :: "'n segment list"

text \<open>
  What is handed to \<open>dispatch\<close>: the call \<open>showdynSnackbar({ message })\<close> or the call
  \<open>updateDisplayConfig({ id, data })\<close>, each with its payload.
\<close>

datatype 'n action =
    showdynSnackbar string
  | updateDisplayConfig string "'n segment list"

text \<open>
  The state a save attempt can touch: the \<open>display\<close> object the component closes over,
  and the sequence of actions dispatched to the store so far.
\<close>

record 'n world =
  display :: "'n display"
  dispatched :: "'n action list"

datatype error = TypeError

subsection \<open>The local object \<open>output\<close>\<close>

text \<open>
  \<open>output\<close> starts as the object literal \<open>{}\<close>. Its own properties are the arrays of
  \<open>[start, end]\<close> pairs stored by the handler; they are modelled as a map from names to
  lists of pairs. An object literal also inherits from \<open>Object.prototype\<close>, whose property
  names are listed here (the standard ones and those every browser adds).
\<close>

type_synonym 'n grouping = "string \<rightharpoonup> ('n \<times> 'n) list"

definition Object_prototype_keys :: "string list" where
  "Object_prototype_keys =
     [''constructor'', ''hasOwnProperty'', ''isPrototypeOf'', ''propertyIsEnumerable'',
      ''toLocaleString'', ''toString'', ''valueOf'',
      ''__defineGetter__'', ''__defineSetter__'', ''__lookupGetter__'', ''__lookupSetter__'',
      ''__proto__'']"

text \<open>
  \<open>name in output\<close>: true for an own property and for an inherited one, since the
  \<open>in\<close> operator follows the prototype chain.
\<close>

definition in_output :: "string \<Rightarrow> 'n grouping \<Rightarrow> bool" where
  "in_output name output \<longleftrightarrow> output name \<noteq> None \<or> name \<in> set Object_prototype_keys"

subsection \<open>The loops\<close>

text \<open>
  The \<open>for\<close> loop of lines 57 to 65 over the ranges already placed under the name. The
  test \<open>if (!tmpStart) {}\<close> has an empty body and is left out.
\<close>

fun for_loop :: "'n::ord \<Rightarrow> ('n \<times> 'n) list \<Rightarrow> bool \<Rightarrow> bool" where
  "for_loop start [] overlap = overlap"
| "for_loop start ((tmpStart, tmpEnd) # rest) overlap =
     for_loop start rest (if tmpEnd \<ge> start then True else overlap)"

text \<open>
  The callback passed to \<open>forEach\<close> (lines 53 to 67), on the locals \<open>output\<close> and
  \<open>overlap\<close>.

  When \<open>name\<close> is not an own property of \<open>output\<close> but is inherited, line 55 is skipped
  and \<open>output[name]\<close> is the inherited value: a built-in function, or \<open>Object.prototype\<close>
  itself for \<open>__proto__\<close>. Where that function's \<open>length\<close> is positive, the first round of
  the \<open>for\<close> loop destructures \<open>output[name][0]\<close>, which is \<open>undefined\<close>; otherwise the
  loop is skipped and \<open>output[name].push\<close> is \<open>undefined\<close> and is called. Either way a
  \<open>TypeError\<close> is thrown before \<open>overlap\<close> or \<open>output\<close> is written.
\<close>

fun callback :: "'n::ord segment \<Rightarrow> 'n grouping \<times> bool \<Rightarrow> error + 'n grouping \<times> bool" where
  "callback (name, start, end, someBool) (output, overlap) =
     (let output = (if \<not> in_output name output then output(name \<mapsto> []) else output)
      in case output name of
           None \<Rightarrow> Inl TypeError
         | Some placed \<Rightarrow>
             Inr (output(name \<mapsto> placed @ [(start, end)]), for_loop start placed overlap))"

text \<open>\<open>display.segments.forEach(callback)\<close>: an exception thrown by the callback ends the walk.\<close>

fun forEach :: "'n::ord segment list \<Rightarrow> 'n grouping \<times> bool \<Rightarrow> error + 'n grouping \<times> bool" where
  "forEach [] locals = Inr locals"
| "forEach (seg # segs) locals =
     (case callback seg locals of
        Inl e \<Rightarrow> Inl e
      | Inr locals' \<Rightarrow> forEach segs locals')"

text \<open>
  The validator: lines 51 to 67, from the fresh locals to the value of \<open>overlap\<close> that
  line 68 reads, or the exception that ends the handler before line 68.
\<close>

definition validator :: "'n::ord segment list \<Rightarrow> error + bool" where
  "validator segs =
     (case forEach segs (Map.empty, False) of
        Inl e \<Rightarrow> Inl e
      | Inr (output, overlap) \<Rightarrow> Inr overlap)"

subsection \<open>The handler\<close>

definition dispatch :: "'n action \<Rightarrow> 'n world \<Rightarrow> 'n world" where
  "dispatch a w = w\<lparr>dispatched := dispatched w @ [a]\<rparr>"

text \<open>
  \<open>handleSave\<close>: the world after the call, and the exception it ended with, if any.
\<close>

definition handleSave :: "'n::ord world \<Rightarrow> 'n world \<times> error option" where
  "handleSave w =
     (case validator (segments (display w)) of
        Inl e \<Rightarrow> (w, Some e)
      | Inr overlap \<Rightarrow>
          if overlap then
            (dispatch (showdynSnackbar ''Overlapping detected! Please Check your config'') w, None)
          else
            (dispatch (updateDisplayConfig (display_id (display w)) (segments (display w))) w,
             None))"

subsection \<open>Vocabulary for the properties\<close>

definition name_of :: "'n segment \<Rightarrow> string" where
  "name_of seg = fst seg"

definition start_of :: "'n segment \<Rightarrow> 'n" where
  "start_of seg = fst (snd seg)"

definition end_of :: "'n segment \<Rightarrow> 'n" where
  "end_of seg = fst (snd (snd seg))"

text \<open>A segment without its fourth element.\<close>

definition without_flag :: "'n segment \<Rightarrow> string \<times> 'n \<times> 'n" where
  "without_flag seg = (name_of seg, start_of seg, end_of seg)"

text \<open>Segment \<open>a\<close> has the name of segment \<open>b\<close> and ends at or after the start of \<open>b\<close>.\<close>

definition reaches :: "'n::ord segment \<Rightarrow> 'n segment \<Rightarrow> bool" where
  "reaches a b \<longleftrightarrow> name_of a = name_of b \<and> end_of a \<ge> start_of b"

text \<open>Two positions \<open>i < j\<close> of the sequence, the segment at \<open>i\<close> reaching the one at \<open>j\<close>.\<close>

definition earlier_pair :: "'n::ord segment list \<Rightarrow> bool" where
  "earlier_pair segs \<longleftrightarrow>
     (\<exists>i j. i < j \<and> j < length segs \<and> reaches (segs ! i) (segs ! j))"

text \<open>The subsequence of the segments of one name, in the original order.\<close>

definition named :: "string \<Rightarrow> 'n segment list \<Rightarrow> 'n segment list" where
  "named n segs = filter (\<lambda>seg. name_of seg = n) segs"

text \<open>No segment name is a property name of \<open>Object.prototype\<close>.\<close>

definition own_names :: "'n segment list \<Rightarrow> bool" where
  "own_names segs \<longleftrightarrow> (\<forall>seg \<in> set segs. name_of seg \<notin> set Object_prototype_keys)"

text \<open>The ranges stored under a name in \<open>output\<close>, none when the name is no own property.\<close>

definition placed :: "'n grouping \<Rightarrow> string \<Rightarrow> ('n \<times> 'n) list" where
  "placed out name = (case out name of None \<Rightarrow> [] | Some rs \<Rightarrow> rs)"

text \<open>Some segment of the sequence starts at or before the end of a range already stored
  under its name.\<close>

definition placed_hit :: "'n::ord grouping \<Rightarrow> 'n segment list \<Rightarrow> bool" where
  "placed_hit out segs \<longleftrightarrow>
     (\<exists>seg \<in> set segs. \<exists>r \<in> set (placed out (name_of seg)). snd r \<ge> start_of seg)"

section \<open>The loops, step by step\<close>

lemma for_loop_iff: "for_loop start rs overlap \<longleftrightarrow> overlap \<or> (\<exists>r \<in> set rs. snd r \<ge> start)"
  by (induction start rs overlap rule: for_loop.induct) auto

lemma callback_own:
  assumes "name \<notin> set Object_prototype_keys"
  shows "callback (name, start, end, someBool) (out, overlap) =
           Inr (out(name \<mapsto> placed out name @ [(start, end)]),
                overlap \<or> (\<exists>r \<in> set (placed out name). snd r \<ge> start))"
  using assms by (force simp: in_output_def placed_def for_loop_iff split: option.splits)

lemma callback_inherited:
  assumes "name \<in> set Object_prototype_keys" and "out name = None"
  shows "callback (name, start, end, someBool) (out, overlap) = Inl TypeError"
  using assms by (simp add: in_output_def)

lemma callback_without_flag:
  assumes "without_flag a = without_flag b"
  shows "callback a locals = callback b locals"
proof -
  obtain n s e f where a: "a = (n, s, e, f)" by (cases a) auto
  obtain f' where b: "b = (n, s, e, f')"
    using assms by (cases b) (auto simp: a without_flag_def name_of_def start_of_def end_of_def)
  obtain out overlap where l: "locals = (out, overlap)" by (cases locals) auto
  show ?thesis by (simp add: a b l)
qed

lemma placed_upd:
  "placed (out(name \<mapsto> rs)) n = (if n = name then rs else placed out n)"
  by (simp add: placed_def)

lemma placed_hit_upd:
  "placed_hit (out(name \<mapsto> placed out name @ [(start, end)])) rest \<longleftrightarrow>
     placed_hit out rest \<or> (\<exists>b \<in> set rest. reaches (name, start, end, someBool) b)"
proof -
  have "(\<exists>r \<in> set (placed (out(name \<mapsto> placed out name @ [(start, end)])) (name_of b)).
            snd r \<ge> start_of b) \<longleftrightarrow>
        (\<exists>r \<in> set (placed out (name_of b)). snd r \<ge> start_of b) \<or>
          reaches (name, start, end, someBool) b" for b
    by (auto simp: placed_upd reaches_def name_of_def start_of_def end_of_def)
  then show ?thesis
    unfolding placed_hit_def by blast
qed

section \<open>Pairs of positions\<close>

lemma earlier_pair_Nil: "\<not> earlier_pair []"
  by (simp add: earlier_pair_def)

lemma earlier_pair_Cons:
  "earlier_pair (a # rest) \<longleftrightarrow> (\<exists>b \<in> set rest. reaches a b) \<or> earlier_pair rest"
proof
  assume "earlier_pair (a # rest)"
  then obtain i j where ij: "i < j" "j < Suc (length rest)"
      "reaches ((a # rest) ! i) ((a # rest) ! j)"
    by (auto simp: earlier_pair_def)
  from ij(1) obtain j' where j': "j = Suc j'" by (cases j) auto
  show "(\<exists>b \<in> set rest. reaches a b) \<or> earlier_pair rest"
  proof (cases i)
    case 0
    with ij j' have "reaches a (rest ! j')" "j' < length rest" by auto
    then show ?thesis by (metis nth_mem)
  next
    case (Suc i')
    with ij j' have "i' < j'" "j' < length rest" "reaches (rest ! i') (rest ! j')" by auto
    then show ?thesis unfolding earlier_pair_def by blast
  qed
next
  assume "(\<exists>b \<in> set rest. reaches a b) \<or> earlier_pair rest"
  then show "earlier_pair (a # rest)"
  proof
    assume "\<exists>b \<in> set rest. reaches a b"
    then obtain j where "j < length rest" "reaches a (rest ! j)"
      by (auto simp: in_set_conv_nth)
    then have "0 < Suc j \<and> Suc j < length (a # rest) \<and>
        reaches ((a # rest) ! 0) ((a # rest) ! Suc j)"
      by simp
    then show ?thesis unfolding earlier_pair_def by blast
  next
    assume "earlier_pair rest"
    then obtain i j where "i < j" "j < length rest" "reaches (rest ! i) (rest ! j)"
      by (auto simp: earlier_pair_def)
    then have "Suc i < Suc j \<and> Suc j < length (a # rest) \<and>
        reaches ((a # rest) ! Suc i) ((a # rest) ! Suc j)"
      by simp
    then show ?thesis unfolding earlier_pair_def by blast
  qed
qed

section \<open>The walk over the segments\<close>

lemma forEach_overlap:
  assumes "own_names segs"
  shows "\<exists>out'. forEach segs (out, overlap) =
           Inr (out', overlap \<or> placed_hit out segs \<or> earlier_pair segs)"
  using assms
proof (induction segs arbitrary: out overlap)
  case Nil
  then show ?case by (simp add: placed_hit_def earlier_pair_Nil)
next
  case (Cons seg segs)
  obtain name start "end" someBool where seg: "seg = (name, start, end, someBool)"
    by (cases seg) auto
  from Cons.prems have own: "name \<notin> set Object_prototype_keys" and rest: "own_names segs"
    by (auto simp: seg name_of_def own_names_def)
  let ?out = "out(name \<mapsto> placed out name @ [(start, end)])"
  let ?ov = "overlap \<or> (\<exists>r \<in> set (placed out name). snd r \<ge> start)"
  from Cons.IH [OF rest, of ?out ?ov] obtain out' where
    "forEach segs (?out, ?ov) = Inr (out', ?ov \<or> placed_hit ?out segs \<or> earlier_pair segs)"
    by blast
  moreover have "(?ov \<or> placed_hit ?out segs \<or> earlier_pair segs) \<longleftrightarrow>
      (overlap \<or> placed_hit out (seg # segs) \<or> earlier_pair (seg # segs))"
    unfolding placed_hit_upd [where someBool = someBool] earlier_pair_Cons seg
    by (auto simp: placed_hit_def name_of_def start_of_def)
  ultimately show ?case
    by (simp add: seg callback_own [OF own] del: callback.simps)
qed

lemma forEach_inherited:
  assumes "\<not> own_names segs" and "\<forall>k \<in> set Object_prototype_keys. out k = None"
  shows "forEach segs (out, overlap) = Inl TypeError"
  using assms
proof (induction segs arbitrary: out overlap)
  case Nil
  then show ?case by (simp add: own_names_def)
next
  case (Cons seg segs)
  obtain name start "end" someBool where seg: "seg = (name, start, end, someBool)"
    by (cases seg) auto
  show ?case
  proof (cases "name \<in> set Object_prototype_keys")
    case True
    with Cons.prems(2) have "out name = None" by blast
    with True show ?thesis
      by (simp add: seg callback_inherited del: callback.simps)
  next
    case False
    with Cons.prems(1) have rest: "\<not> own_names segs"
      by (simp add: own_names_def seg name_of_def)
    let ?out = "out(name \<mapsto> placed out name @ [(start, end)])"
    from False Cons.prems(2) have "\<forall>k \<in> set Object_prototype_keys. ?out k = None"
      by auto
    then have "forEach segs (?out, overlap \<or> (\<exists>r \<in> set (placed out name). snd r \<ge> start)) =
        Inl TypeError"
      by (rule Cons.IH [OF rest])
    then show ?thesis
      by (simp add: seg callback_own [OF False] del: callback.simps)
  qed
qed

lemma validator_own_names:
  assumes "own_names segs"
  shows "validator segs = Inr (earlier_pair segs)"
proof -
  from forEach_overlap [OF assms, of Map.empty False] obtain out' where
    "forEach segs (Map.empty, False) =
       Inr (out', False \<or> placed_hit Map.empty segs \<or> earlier_pair segs)"
    by blast
  then show ?thesis by (simp add: validator_def placed_hit_def placed_def)
qed

lemma validator_inherited:
  assumes "\<not> own_names segs"
  shows "validator segs = Inl TypeError"
  using forEach_inherited [OF assms, of Map.empty False] by (simp add: validator_def)

lemma validator_cases:
  "validator segs = (if own_names segs then Inr (earlier_pair segs) else Inl TypeError)"
  by (simp add: validator_own_names validator_inherited)

lemma handleSave_own_names:
  assumes "own_names (segments (display w))"
  shows "handleSave w =
     (dispatch (if earlier_pair (segments (display w))
                then showdynSnackbar ''Overlapping detected! Please Check your config''
                else updateDisplayConfig (display_id (display w)) (segments (display w))) w,
      None)"
  by (simp add: handleSave_def validator_own_names [OF assms])

lemma handleSave_inherited:
  assumes "\<not> own_names (segments (display w))"
  shows "handleSave w = (w, Some TypeError)"
  by (simp add: handleSave_def validator_inherited [OF assms])

section \<open>Names\<close>

lemma earlier_pair_distinct:
  assumes "distinct (map name_of segs)"
  shows "\<not> earlier_pair segs"
  using assms
  by (induction segs) (auto simp: earlier_pair_Nil earlier_pair_Cons reaches_def)

lemma handleSave_distinct_names:
  assumes "own_names (segments (display w))" and "distinct (map name_of (segments (display w)))"
  shows "validator (segments (display w)) = Inr False"
    and "handleSave w =
      (dispatch (updateDisplayConfig (display_id (display w)) (segments (display w))) w, None)"
  using assms
  by (simp_all add: validator_own_names handleSave_own_names earlier_pair_distinct)

lemma named_Cons:
  "named n (a # rest) = (if name_of a = n then a # named n rest else named n rest)"
  by (simp add: named_def)

lemma set_named: "set (named n segs) = {seg \<in> set segs. name_of seg = n}"
  by (simp add: named_def)

lemma reaches_named:
  "(\<exists>b \<in> set (named (name_of a) rest). reaches a b) \<longleftrightarrow> (\<exists>b \<in> set rest. reaches a b)"
proof -
  have "b \<in> set (named (name_of a) rest) \<longleftrightarrow> b \<in> set rest" if "reaches a b" for b
    using that by (simp add: set_named reaches_def)
  then show ?thesis by blast
qed

lemma earlier_pair_by_name:
  "earlier_pair segs \<longleftrightarrow> (\<exists>n \<in> set (map name_of segs). earlier_pair (named n segs))"
proof (induction segs)
  case Nil
  then show ?case by (simp add: earlier_pair_Nil)
next
  case (Cons a rest)
  have step: "earlier_pair (named n (a # rest)) \<longleftrightarrow>
      (n = name_of a \<and> (\<exists>b \<in> set rest. reaches a b)) \<or> earlier_pair (named n rest)" for n
  proof (cases "n = name_of a")
    case True
    show ?thesis
      unfolding True by (simp add: named_Cons earlier_pair_Cons reaches_named)
  next
    case False
    then show ?thesis by (auto simp: named_Cons)
  qed
  have names: "earlier_pair (named n rest) \<Longrightarrow> n \<in> set (map name_of rest)" for n
  proof -
    assume "earlier_pair (named n rest)"
    then have "named n rest \<noteq> []" using earlier_pair_Nil [where 'a = 'a] by auto
    then obtain seg where "seg \<in> set (named n rest)" by (cases "named n rest") auto
    then show ?thesis unfolding set_named by force
  qed
  have "(\<exists>n \<in> set (map name_of (a # rest)). earlier_pair (named n (a # rest))) \<longleftrightarrow>
      (\<exists>b \<in> set rest. reaches a b) \<or> (\<exists>n \<in> set (map name_of rest). earlier_pair (named n rest))"
    (is "?L \<longleftrightarrow> ?A \<or> ?B")
  proof
    assume ?L
    then obtain n where "earlier_pair (named n (a # rest))" by blast
    then have "(n = name_of a \<and> ?A) \<or> earlier_pair (named n rest)" by (simp only: step)
    then show "?A \<or> ?B" using names by blast
  next
    assume "?A \<or> ?B"
    then show ?L
    proof
      assume ?A
      then have "earlier_pair (named (name_of a) (a # rest))" by (simp only: step) simp
      then show ?L by simp
    next
      assume ?B
      then obtain n where "n \<in> set (map name_of rest)" "earlier_pair (named n rest)" by blast
      then have "n \<in> set (map name_of (a # rest))" "earlier_pair (named n (a # rest))"
        by (simp_all only: step) simp_all
      then show ?L by blast
    qed
  qed
  then show ?case
    by (simp only: earlier_pair_Cons Cons.IH)
qed

lemma own_names_named: "own_names segs \<Longrightarrow> own_names (named n segs)"
  unfolding own_names_def set_named by blast

lemma validator_by_name:
  assumes "own_names segs"
  shows "validator segs =
     Inr (\<exists>n \<in> set (map name_of segs). validator (named n segs) = Inr True)"
  by (simp add: validator_own_names assms own_names_named earlier_pair_by_name [of segs])

section \<open>The fourth element of a segment\<close>

lemma forEach_without_flag:
  assumes "map without_flag xs = map without_flag ys"
  shows "forEach xs locals = forEach ys locals"
  using assms
proof (induction xs arbitrary: ys locals)
  case Nil
  then show ?case by simp
next
  case (Cons x xs)
  then obtain y ys' where ys: "ys = y # ys'" "without_flag x = without_flag y"
      "map without_flag xs = map without_flag ys'"
    by (cases ys) auto
  have "callback x locals = callback y locals"
    by (rule callback_without_flag [OF ys(2)])
  with Cons.IH [OF ys(3)] show ?case
    by (simp add: ys(1) split: sum.splits)
qed

section \<open>The claims\<close>

text \<open>
  Claim C1: for every segment sequence, the validator reports \<open>overlap == true\<close> exactly
  when two positions \<open>i < j\<close> hold segments of one name with the end of the segment at \<open>i\<close>
  greater than or equal to the start of the segment at \<open>j\<close>.

  Lemma \<open>validator_own_names\<close> proves this for every sequence none of whose names is a
  property name of \<open>Object.prototype\<close>. It fails for the others: the two segments named
  \<open>constructor\<close> below form such a pair, and the walk ends in a \<open>TypeError\<close> at the first of
  them, so that no value of \<open>overlap\<close> is ever read.
\<close>

theorem inherited_name_pair_unreported:
  "earlier_pair [(''constructor'', 0::int, 5, False), (''constructor'', 3, 8, False)] \<and>
   validator [(''constructor'', 0::int, 5, False), (''constructor'', 3, 8, False)] = Inl TypeError"
  by (simp add: earlier_pair_Cons reaches_def name_of_def start_of_def end_of_def
        validator_def in_output_def Object_prototype_keys_def)

text \<open>
  Claim C2: for a single name with the two ranges \<open>(10,20)\<close> and then \<open>(0,5)\<close>, the validator
  reports \<open>overlap == false\<close>.

  The validator does not: when the second range is processed, the stored end \<open>20\<close> is compared
  with the new start \<open>0\<close>, and \<open>20 >= 0\<close> raises the flag.
\<close>

theorem later_lower_range_counterexample:
  "\<not> validator [(''a'', 10::int, 20, False), (''a'', 0, 5, False)] = Inr False"
  by (simp add: validator_def in_output_def Object_prototype_keys_def)

text \<open>
  Claim C2, amended: for a single name that is no property name of \<open>Object.prototype\<close>, with
  the two ranges \<open>(10,20)\<close> and then \<open>(0,5)\<close>, the validator reports \<open>overlap == true\<close>.
\<close>

theorem later_lower_range_overlap:
  assumes "name \<notin> set Object_prototype_keys"
  shows "validator [(name, 10::int, 20, b1), (name, 0, 5, b2)] = Inr True"
proof -
  have "own_names [(name, 10::int, 20, b1), (name, 0, 5, b2)]"
    using assms by (simp add: own_names_def name_of_def)
  then show ?thesis
    by (simp add: validator_own_names earlier_pair_Cons reaches_def name_of_def start_of_def
          end_of_def)
qed

theorem later_lower_range_overlap_witness:
  "''seg'' \<notin> set Object_prototype_keys \<and>
   validator [(''seg'', 10::int, 20, True), (''seg'', 0, 5, False)] = Inr True"
proof -
  have own: "''seg'' \<notin> set Object_prototype_keys"
    by (simp add: Object_prototype_keys_def)
  from later_lower_range_overlap [OF own, of True False] own show ?thesis by simp
qed

text \<open>
  Claim C3: on every save attempt exactly one of the two actions is dispatched, the
  notification when \<open>overlap == true\<close> and the store update when \<open>overlap == false\<close>.

  Lemma \<open>handleSave_own_names\<close> proves this for every sequence none of whose names is a
  property name of \<open>Object.prototype\<close>. For the others lemma \<open>handleSave_inherited\<close> shows
  that the handler ends in a \<open>TypeError\<close> with nothing dispatched, as for the single segment
  named \<open>constructor\<close> below.
\<close>

theorem inherited_name_nothing_dispatched:
  "handleSave \<lparr>display = \<lparr>display_id = ''d'', config_name = ''c'',
                  segments = [(''constructor'', 0::int, 5, False)]\<rparr>, dispatched = []\<rparr> =
     (\<lparr>display = \<lparr>display_id = ''d'', config_name = ''c'',
                  segments = [(''constructor'', 0::int, 5, False)]\<rparr>, dispatched = []\<rparr>,
      Some TypeError)"
  by (simp add: handleSave_def validator_def in_output_def Object_prototype_keys_def)

text \<open>
  Claim C4: for a single name with the two ranges \<open>(0,5)\<close> and then \<open>(5,10)\<close>, the validator
  reports \<open>overlap == true\<close>, the equal bounds counting as an overlap.

  By \<open>validator_own_names\<close> this holds for every name that is no property name of
  \<open>Object.prototype\<close>, since \<open>5 >= 5\<close>. For the name \<open>constructor\<close> the walk ends in a
  \<open>TypeError\<close> instead.
\<close>

theorem inherited_name_boundary:
  "validator [(''constructor'', 0::int, 5, False), (''constructor'', 5, 10, False)] =
     Inl TypeError"
  by (simp add: validator_def in_output_def Object_prototype_keys_def)

text \<open>
  Claim C5: for every segment sequence whose names are pairwise distinct, the validator
  reports \<open>overlap == false\<close> and the store update is dispatched with the sequence unchanged.

  Lemma \<open>handleSave_distinct_names\<close> proves this for every such sequence none of whose
  names is a property name of \<open>Object.prototype\<close>. The two segments
  below have distinct names, one of them \<open>toString\<close>, and nothing is dispatched.
\<close>

theorem inherited_name_distinct:
  "distinct (map name_of [(''left'', 0::int, 5, False), (''toString'', 0, 5, False)]) \<and>
   handleSave \<lparr>display = \<lparr>display_id = ''d'', config_name = ''c'',
                  segments = [(''left'', 0::int, 5, False), (''toString'', 0, 5, False)]\<rparr>,
               dispatched = []\<rparr> =
     (\<lparr>display = \<lparr>display_id = ''d'', config_name = ''c'',
                  segments = [(''left'', 0::int, 5, False), (''toString'', 0, 5, False)]\<rparr>,
       dispatched = []\<rparr>,
      Some TypeError)"
  by (simp add: name_of_def handleSave_def validator_def in_output_def Object_prototype_keys_def)

text \<open>
  Claim C6: the result for a sequence is the disjunction, over its names, of the results of
  the validator on the subsequence of each name; the segments of one name never affect the
  result of another.

  Lemma \<open>validator_by_name\<close> proves this for every sequence none of whose names is a property
  name of \<open>Object.prototype\<close>. Below, the segments named \<open>a\<close> overlap on their own, and the
  segment named \<open>valueOf\<close> that follows them ends the walk of the whole sequence in a
  \<open>TypeError\<close>, so that the overlap is not reported.
\<close>

theorem inherited_name_hides_other_group:
  "validator (named ''a'' [(''a'', 0::int, 5, False), (''a'', 5, 10, False),
                            (''valueOf'', 0, 1, False)]) = Inr True \<and>
   validator [(''a'', 0::int, 5, False), (''a'', 5, 10, False), (''valueOf'', 0, 1, False)] =
     Inl TypeError"
  by (simp add: named_def name_of_def validator_def in_output_def Object_prototype_keys_def)

text \<open>
  Claim C7: for the empty segment sequence the validator reports \<open>overlap == false\<close>, and the
  handler dispatches the store update carrying the empty sequence.
\<close>

theorem empty_sequence_saved:
  "validator ([] :: 'n::ord segment list) = Inr False \<and>
   handleSave \<lparr>display = \<lparr>display_id = i, config_name = c, segments = []\<rparr>,
               dispatched = log\<rparr> =
     (\<lparr>display = \<lparr>display_id = i, config_name = c, segments = ([] :: 'n segment list)\<rparr>,
       dispatched = log @ [updateDisplayConfig i []]\<rparr>, None)"
  by (simp add: validator_def handleSave_def dispatch_def)

text \<open>
  Claim C8: when \<open>overlap == false\<close>, the dispatched store update carries the identifier of
  the display and its segment sequence, element for element; when \<open>overlap == true\<close>, the
  dispatched notification carries the message
  \<open>Overlapping detected! Please Check your config\<close>.
\<close>

theorem dispatched_payloads:
  "(validator (segments (display w)) = Inr False \<longrightarrow>
      handleSave w =
        (w\<lparr>dispatched := dispatched w @
              [updateDisplayConfig (display_id (display w)) (segments (display w))]\<rparr>, None)) \<and>
   (validator (segments (display w)) = Inr True \<longrightarrow>
      handleSave w =
        (w\<lparr>dispatched := dispatched w @
              [showdynSnackbar ''Overlapping detected! Please Check your config'']\<rparr>, None))"
  by (simp add: handleSave_def dispatch_def)

theorem dispatched_payloads_witness:
  "validator [(''a'', 0::int, 5, False), (''b'', 0, 5, True)] = Inr False \<and>
   handleSave \<lparr>display = \<lparr>display_id = ''d'', config_name = ''c'',
                  segments = [(''a'', 0::int, 5, False), (''b'', 0, 5, True)]\<rparr>,
               dispatched = []\<rparr> =
     (\<lparr>display = \<lparr>display_id = ''d'', config_name = ''c'',
                  segments = [(''a'', 0::int, 5, False), (''b'', 0, 5, True)]\<rparr>,
       dispatched = [updateDisplayConfig ''d'' [(''a'', 0, 5, False), (''b'', 0, 5, True)]]\<rparr>,
      None) \<and>
   validator [(''a'', 0::int, 5, False), (''a'', 2, 8, True)] = Inr True \<and>
   handleSave \<lparr>display = \<lparr>display_id = ''d'', config_name = ''c'',
                  segments = [(''a'', 0::int, 5, False), (''a'', 2, 8, True)]\<rparr>,
               dispatched = []\<rparr> =
     (\<lparr>display = \<lparr>display_id = ''d'', config_name = ''c'',
                  segments = [(''a'', 0::int, 5, False), (''a'', 2, 8, True)]\<rparr>,
       dispatched = [showdynSnackbar ''Overlapping detected! Please Check your config'']\<rparr>,
      None)"
proof -
  let ?ok = "\<lparr>display = \<lparr>display_id = ''d'', config_name = ''c'',
                  segments = [(''a'', 0::int, 5, False), (''b'', 0, 5, True)]\<rparr>,
               dispatched = []\<rparr>"
  let ?bad = "\<lparr>display = \<lparr>display_id = ''d'', config_name = ''c'',
                  segments = [(''a'', 0::int, 5, False), (''a'', 2, 8, True)]\<rparr>,
               dispatched = []\<rparr>"
  have v1: "validator [(''a'', 0::int, 5, False), (''b'', 0, 5, True)] = Inr False"
    by (simp add: validator_def in_output_def Object_prototype_keys_def)
  have v2: "validator [(''a'', 0::int, 5, False), (''a'', 2, 8, True)] = Inr True"
    by (simp add: validator_def in_output_def Object_prototype_keys_def)
  from dispatched_payloads [of ?ok] dispatched_payloads [of ?bad] v1 v2
  show ?thesis by simp
qed

text \<open>
  Claim C9: two segment sequences that agree on name, start and end at every position, and
  differ at most in the fourth element of their segments, get the same result from the
  validator.
\<close>

theorem flag_independence:
  assumes "map without_flag xs = map without_flag ys"
  shows "validator xs = validator ys"
  by (simp add: validator_def forEach_without_flag [OF assms])

theorem flag_independence_witness:
  "map without_flag [(''a'', 0::int, 5, False), (''a'', 3, 9, False)] =
     map without_flag [(''a'', 0::int, 5, True), (''a'', 3, 9, False)] \<and>
   validator [(''a'', 0::int, 5, False), (''a'', 3, 9, False)] =
     validator [(''a'', 0::int, 5, True), (''a'', 3, 9, False)]"
proof -
  have same: "map without_flag [(''a'', 0::int, 5, False), (''a'', 3, 9, False)] =
     map without_flag [(''a'', 0::int, 5, True), (''a'', 3, 9, False)]"
    by (simp add: without_flag_def name_of_def start_of_def end_of_def)
  from flag_independence [OF same] same show ?thesis by simp
qed

text \<open>
  Claim C10: the display object, its segment sequence included, is the same after every save
  attempt as before it, whether an overlap is reported or not, and also when the handler
  ends in an exception.
\<close>

theorem display_unchanged:
  "display (fst (handleSave w)) = display w"
  by (simp add: handleSave_def dispatch_def split: sum.splits)

end
